theory Spec2Isabelle
  imports Complex_Main
begin

section \<open>The coin-toss simulation (first code cell of the notebook)\<close>

text \<open>
  The cell reads
  \<^verbatim>\<open>heads_proba = 0.51\<close>,
  \<^verbatim>\<open>coin_tosses = (np.random.rand(10000, 10) < heads_proba).astype(np.int32)\<close>,
  \<^verbatim>\<open>cumulative_heads = coin_tosses.cumsum(axis=0)\<close>,
  \<^verbatim>\<open>cumulative_heads_ratio = cumulative_heads / np.arange(1, 10001).reshape(-1, 1)\<close>.

  The array returned by \<^verbatim>\<open>np.random.rand(10000, 10)\<close> is the input of the model: a list
  of rows, each a list of numbers. Its values come from the library's generator and are
  left arbitrary. A double is a rational number, so the entries are of type \<open>rat\<close>.
\<close>

text \<open>
  The threshold \<^verbatim>\<open>0.51\<close>. The double nearest to it differs from \<open>51 / 100\<close> by less than
  \<open>10\<^sup>-\<^sup>1\<^sup>7\<close>; no property below depends on the value of the threshold.
\<close>

definition heads_proba :: rat where
  "heads_proba = 51 / 100"

text \<open>The comparison gives a boolean array; \<^verbatim>\<open>astype(np.int32)\<close> maps True to 1, False to 0.\<close>

definition coin_tosses :: "rat list list \<Rightarrow> int list list" where
  "coin_tosses rnd = map (map (\<lambda>u. if u < heads_proba then 1 else 0)) rnd"

text \<open>
  \<^verbatim>\<open>cumsum(axis=0)\<close>: row 0 of the result is row 0 of the array, row \<open>t\<close> is row \<open>t - 1\<close>
  of the result plus row \<open>t\<close> of the array, element by element.
\<close>

fun cumsum_from :: "int list \<Rightarrow> int list list \<Rightarrow> int list list" where
  "cumsum_from acc [] = []"
| "cumsum_from acc (row # rows) =
     (let acc' = map2 (+) acc row in acc' # cumsum_from acc' rows)"

definition cumsum_axis0 :: "int list list \<Rightarrow> int list list" where
  "cumsum_axis0 a = (case a of [] \<Rightarrow> [] | row # rows \<Rightarrow> row # cumsum_from row rows)"

definition cumulative_heads :: "rat list list \<Rightarrow> int list list" where
  "cumulative_heads rnd = cumsum_axis0 (coin_tosses rnd)"

text \<open>\<^verbatim>\<open>np.arange(lo, hi)\<close> on integers: \<open>lo, lo + 1, ..., hi - 1\<close>.\<close>

definition arange :: "int \<Rightarrow> int \<Rightarrow> int list" where
  "arange lo hi = [lo..hi - 1]"

text \<open>
  \<^verbatim>\<open>/\<close> on two integer arrays is true division into float64: the exact quotient, rounded
  to a double. The rounding is the parameter \<open>fl\<close>; the division by the reshaped column
  \<open>1, ..., 10000\<close> divides every entry of row \<open>t\<close> by \<open>t + 1\<close>.
\<close>

definition true_divide :: "(rat \<Rightarrow> rat) \<Rightarrow> int \<Rightarrow> int \<Rightarrow> rat" where
  "true_divide fl a b = fl (of_int a / of_int b)"

definition cumulative_heads_ratio :: "(rat \<Rightarrow> rat) \<Rightarrow> rat list list \<Rightarrow> rat list list" where
  "cumulative_heads_ratio fl rnd =
     map2 (\<lambda>row d. map (\<lambda>k. true_divide fl k d) row) (cumulative_heads rnd) (arange 1 10001)"

text \<open>The number of heads among the first \<open>t + 1\<close> tosses of column \<open>c\<close>.\<close>

definition heads_among :: "rat list list \<Rightarrow> nat \<Rightarrow> nat \<Rightarrow> nat" where
  "heads_among rnd t c = length (filter (\<lambda>row. row ! c < heads_proba) (take (Suc t) rnd))"

text \<open>The shape \<open>(n, m)\<close> of a two-dimensional array.\<close>

definition has_shape :: "'a list list \<Rightarrow> nat \<Rightarrow> nat \<Rightarrow> bool" where
  "has_shape a n m \<longleftrightarrow> length a = n \<and> list_all (\<lambda>row. length row = m) a"

section \<open>One bootstrap draw\<close>

text \<open>
  Modelled from the spec: the bootstrap sampler. The notebook only calls the library's
  bagging classifier, and the sampler is inside that library, so nothing in the notebook
  draws a sample. The data model describes a bootstrap sample as indices into the dataset
  "drawn uniformly with replacement", and the out-of-bag set of a sample as "the set of
  dataset indices never drawn into that sample". A draw of \<open>k\<close> indices from \<open>n\<close> items
  is then a sequence of length \<open>k\<close> over \<open>0, ..., n - 1\<close>, and every such sequence is
  equally likely; the probability of an event is the number of sequences in it divided by
  the number of all sequences.
\<close>

definition bootstrap_outcomes :: "nat \<Rightarrow> nat \<Rightarrow> nat list list" where
  "bootstrap_outcomes n k = List.n_lists k [0..<n]"

definition out_of_bag :: "nat \<Rightarrow> nat list \<Rightarrow> bool" where
  "out_of_bag i sample \<longleftrightarrow> i \<notin> set sample"

definition oob_probability :: "nat \<Rightarrow> nat \<Rightarrow> nat \<Rightarrow> real" where
  "oob_probability n k i =
     real (length (filter (out_of_bag i) (bootstrap_outcomes n k)))
       / real (length (bootstrap_outcomes n k))"

section \<open>Properties of the coin-toss simulation\<close>

subsection \<open>The running sum, entry by entry\<close>

lemma length_cumsum_from: "length (cumsum_from acc rows) = length rows"
  by (induction rows arbitrary: acc) (simp_all add: Let_def)

lemma cumsum_from_nth:
  assumes "length acc = m" and "list_all (\<lambda>row. length row = m) rows"
    and "t < length rows" and "c < m"
  shows "cumsum_from acc rows ! t ! c = acc ! c + (\<Sum>row\<leftarrow>take (Suc t) rows. row ! c)"
  using assms
proof (induction rows arbitrary: acc t)
  case Nil
  then show ?case by simp
next
  case (Cons row rows)
  let ?acc = "map2 (+) acc row"
  from Cons.prems have len: "length row = m" and rest: "list_all (\<lambda>row. length row = m) rows"
    by simp_all
  have acc_len: "length ?acc = m"
    using Cons.prems(1) len by simp
  have acc_c: "?acc ! c = acc ! c + row ! c"
    using Cons.prems(1,4) len by simp
  show ?case
  proof (cases t)
    case 0
    then show ?thesis using acc_c by (simp add: Let_def)
  next
    case (Suc t')
    then have "t' < length rows" using Cons.prems(3) by simp
    from Cons.IH [OF acc_len rest this Cons.prems(4)]
    show ?thesis using Suc acc_c by (simp add: Let_def)
  qed
qed

lemma cumsum_axis0_nth:
  assumes "list_all (\<lambda>row. length row = m) a" and "t < length a" and "c < m"
  shows "cumsum_axis0 a ! t ! c = (\<Sum>row\<leftarrow>take (Suc t) a. row ! c)"
proof (cases a)
  case Nil
  then show ?thesis using assms by simp
next
  case (Cons row rows)
  show ?thesis
  proof (cases t)
    case 0
    then show ?thesis using Cons by (simp add: cumsum_axis0_def)
  next
    case (Suc t')
    have "cumsum_from row rows ! t' ! c = row ! c + (\<Sum>r\<leftarrow>take (Suc t') rows. r ! c)"
      using assms Cons Suc by (intro cumsum_from_nth [where m = m]) simp_all
    then show ?thesis using Cons Suc by (simp add: cumsum_axis0_def)
  qed
qed

lemma length_cumsum_axis0: "length (cumsum_axis0 a) = length a"
  by (cases a) (simp_all add: cumsum_axis0_def length_cumsum_from)

lemma sum_indicator_count:
  "(\<Sum>x\<leftarrow>xs. if P x then 1 else 0) = int (length (filter P xs))"
  by (induction xs) simp_all

lemma coin_tosses_column:
  assumes "list_all (\<lambda>row. length row = m) rnd" and "c < m"
  shows "(\<Sum>row\<leftarrow>take k (coin_tosses rnd). row ! c)
         = int (length (filter (\<lambda>row. row ! c < heads_proba) (take k rnd)))"
proof -
  have "(\<Sum>row\<leftarrow>take k (coin_tosses rnd). row ! c)
        = (\<Sum>row\<leftarrow>take k rnd. if row ! c < heads_proba then 1 else 0)"
  proof -
    have "\<And>row. row \<in> set (take k rnd) \<Longrightarrow>
            map (\<lambda>u. if u < heads_proba then 1 else (0::int)) row ! c
            = (if row ! c < heads_proba then 1 else 0)"
    proof -
      fix row assume "row \<in> set (take k rnd)"
      then have "row \<in> set rnd" by (rule in_set_takeD)
      then have "length row = m" using assms(1) by (simp add: list_all_iff)
      then show "map (\<lambda>u. if u < heads_proba then 1 else (0::int)) row ! c
                 = (if row ! c < heads_proba then 1 else 0)"
        using assms(2) by simp
    qed
    then show ?thesis
      by (simp add: coin_tosses_def take_map comp_def cong: map_cong)
  qed
  then show ?thesis by (simp add: sum_indicator_count)
qed

lemma cumulative_heads_nth:
  assumes "list_all (\<lambda>row. length row = m) rnd" and "t < length rnd" and "c < m"
  shows "cumulative_heads rnd ! t ! c = int (heads_among rnd t c)"
proof -
  have "list_all (\<lambda>row. length row = m) (coin_tosses rnd)"
    using assms(1) by (simp add: coin_tosses_def list_all_iff)
  moreover have "t < length (coin_tosses rnd)"
    using assms(2) by (simp add: coin_tosses_def)
  ultimately have "cumulative_heads rnd ! t ! c = (\<Sum>row\<leftarrow>take (Suc t) (coin_tosses rnd). row ! c)"
    unfolding cumulative_heads_def using assms(3) by (rule cumsum_axis0_nth)
  then show ?thesis
    using coin_tosses_column [OF assms(1,3)] by (simp add: heads_among_def)
qed

lemma heads_among_le: "heads_among rnd t c \<le> Suc t"
proof -
  have "heads_among rnd t c \<le> length (take (Suc t) rnd)"
    unfolding heads_among_def by (rule length_filter_le)
  then show ?thesis by simp
qed

lemma length_cumulative_heads: "length (cumulative_heads rnd) = length rnd"
  by (simp add: cumulative_heads_def length_cumsum_axis0 coin_tosses_def)

lemma arange_nth: "t < 10000 \<Longrightarrow> arange 1 10001 ! t = int t + 1"
  by (simp add: arange_def)

lemma length_arange: "length (arange 1 10001) = 10000"
  by (simp add: arange_def)

lemma cumsum_from_row_length:
  assumes "length acc = m" and "list_all (\<lambda>row. length row = m) rows" and "k < length rows"
  shows "length (cumsum_from acc rows ! k) = m"
  using assms
proof (induction rows arbitrary: acc k)
  case Nil
  then show ?case by simp
next
  case (Cons row rows)
  then show ?case by (cases k) (simp_all add: Let_def)
qed

lemma cumsum_axis0_row_length:
  assumes "list_all (\<lambda>row. length row = m) a" and "t < length a"
  shows "length (cumsum_axis0 a ! t) = m"
proof (cases a)
  case Nil
  then show ?thesis using assms(2) by simp
next
  case (Cons row rows)
  with assms(1) have r: "length row = m" and rs: "list_all (\<lambda>row. length row = m) rows"
    by simp_all
  show ?thesis
  proof (cases t)
    case 0
    then show ?thesis using Cons r by (simp add: cumsum_axis0_def)
  next
    case (Suc k)
    then have "k < length rows" using assms(2) Cons by simp
    from cumsum_from_row_length [OF r rs this] show ?thesis
      using Cons Suc by (simp add: cumsum_axis0_def)
  qed
qed

lemma cumulative_heads_row_length:
  assumes "list_all (\<lambda>row. length row = m) rnd" and "t < length rnd"
  shows "length (cumulative_heads rnd ! t) = m"
proof -
  have "list_all (\<lambda>row. length row = m) (coin_tosses rnd)"
    using assms(1) by (simp add: coin_tosses_def list_all_iff)
  moreover have "t < length (coin_tosses rnd)"
    using assms(2) by (simp add: coin_tosses_def)
  ultimately show ?thesis
    unfolding cumulative_heads_def by (rule cumsum_axis0_row_length)
qed

lemma length_cumulative_heads_ratio:
  "length rnd = 10000 \<Longrightarrow> length (cumulative_heads_ratio fl rnd) = 10000"
  by (simp add: cumulative_heads_ratio_def length_cumulative_heads length_arange)

lemma cumulative_heads_ratio_row:
  assumes "length rnd = 10000" and "t < 10000"
  shows "cumulative_heads_ratio fl rnd ! t
         = map (\<lambda>k. true_divide fl k (int t + 1)) (cumulative_heads rnd ! t)"
  using assms
  by (simp add: cumulative_heads_ratio_def length_cumulative_heads length_arange arange_nth)

lemma cumulative_heads_ratio_nth:
  assumes "has_shape rnd 10000 10" and "t < 10000" and "c < 10"
  shows "cumulative_heads_ratio fl rnd ! t ! c
         = fl (of_nat (heads_among rnd t c) / of_nat (Suc t))"
proof -
  from assms(1) have rows: "list_all (\<lambda>row. length row = 10) rnd" and len: "length rnd = 10000"
    by (simp_all add: has_shape_def)
  have t_len: "t < length rnd" using assms(2) len by simp
  have entry: "cumulative_heads rnd ! t ! c = int (heads_among rnd t c)"
    using rows t_len assms(3) by (rule cumulative_heads_nth)
  have "length (cumulative_heads rnd ! t) = 10"
    using rows t_len by (rule cumulative_heads_row_length)
  then have c_len: "c < length (cumulative_heads rnd ! t)" using assms(3) by simp
  have "cumulative_heads_ratio fl rnd ! t ! c
        = true_divide fl (cumulative_heads rnd ! t ! c) (int t + 1)"
    using c_len by (simp add: cumulative_heads_ratio_row [OF len assms(2)])
  then show ?thesis
    using entry by (simp add: true_divide_def add.commute)
qed

section \<open>Counting the draws that miss an index\<close>

lemma sum_list_if_const:
  "(\<Sum>y\<leftarrow>ys. if P y then c else 0) = (c::nat) * length (filter P ys)"
  by (induction ys) simp_all

lemma count_avoiding:
  "length (filter (\<lambda>s. i \<notin> set s) (List.n_lists k xs))
   = length (filter (\<lambda>x. x \<noteq> i) xs) ^ k"
proof (induction k)
  case 0
  then show ?case by simp
next
  case (Suc k)
  let ?c = "length (filter (\<lambda>x. x \<noteq> i) xs)"
  have inner: "length (filter (\<lambda>s. i \<notin> set s) (map (\<lambda>y. y # ys) xs))
               = (if i \<notin> set ys then ?c else 0)" for ys
    by (induction xs) auto
  have "length (filter (\<lambda>s. i \<notin> set s) (List.n_lists (Suc k) xs))
        = (\<Sum>ys\<leftarrow>List.n_lists k xs. if i \<notin> set ys then ?c else 0)"
    by (simp only: List.n_lists.simps filter_concat length_concat map_map comp_def inner)
  also have "\<dots> = ?c * length (filter (\<lambda>s. i \<notin> set s) (List.n_lists k xs))"
    by (rule sum_list_if_const)
  finally show ?case using Suc by simp
qed

lemma count_others:
  assumes "i < n"
  shows "length (filter (\<lambda>x. x \<noteq> i) [0..<n]) = n - 1"
proof -
  have "length (filter (\<lambda>x. x \<noteq> i) [0..<n]) = card ({x. x \<noteq> i} \<inter> set [0..<n])"
    by (rule distinct_length_filter) simp
  also have "{x. x \<noteq> i} \<inter> set [0..<n] = {0..<n} - {i}" by auto
  also have "card ({0..<n} - {i}) = n - 1" using assms by simp
  finally show ?thesis .
qed

lemma oob_probability_eq:
  assumes "1 \<le> n" and "i < n"
  shows "oob_probability n k i = (1 - 1 / real n) ^ k"
proof -
  have "filter (out_of_bag i) (bootstrap_outcomes n k)
        = filter (\<lambda>s. i \<notin> set s) (List.n_lists k [0..<n])"
    by (simp add: bootstrap_outcomes_def out_of_bag_def [abs_def])
  then have "length (filter (out_of_bag i) (bootstrap_outcomes n k)) = (n - 1) ^ k"
    using assms(2) by (simp only: count_avoiding count_others)
  moreover have "length (bootstrap_outcomes n k) = n ^ k"
    by (simp add: bootstrap_outcomes_def length_n_lists)
  ultimately have "oob_probability n k i = real ((n - 1) ^ k) / real (n ^ k)"
    by (simp only: oob_probability_def)
  also have "\<dots> = ((real n - 1) / real n) ^ k"
    using assms(1) by (simp add: power_divide of_nat_diff)
  also have "(real n - 1) / real n = 1 - 1 / real n"
    using assms(1) by (simp add: field_simps)
  finally show ?thesis .
qed

lemma oob_probability_limit: "(\<lambda>n. oob_probability n n 0) \<longlonglongrightarrow> exp (- 1)"
proof -
  have "(\<lambda>n. (1 + (- 1) / real n) ^ n) \<longlonglongrightarrow> exp (- 1)"
    by (rule tendsto_exp_limit_sequentially)
  moreover have "eventually (\<lambda>n. (1 + (- 1) / real n) ^ n = oob_probability n n 0) sequentially"
    by (rule eventually_sequentiallyI [of 1]) (simp add: oob_probability_eq)
  ultimately show ?thesis by (rule Lim_transform_eventually)
qed

text \<open>
  The value of \<open>1 / e\<close> from eight terms of the exponential series: the remainder is
  positive and at most \<open>3 / 8!\<close>.
\<close>

lemma exp_minus_one_approx: "\<bar>exp (- 1 :: real) - 368 / 1000\<bar> < 1 / 1000"
proof -
  obtain t :: real where t: "\<bar>t\<bar> \<le> \<bar>- 1\<bar>"
    and e: "exp (- 1 :: real) = (\<Sum>m<8. ((- 1) ^ m) / fact m) + (exp t / fact 8) * (- 1) ^ 8"
    using Maclaurin_exp_le [of "- 1" 8] by blast
  have s: "(\<Sum>m<8. ((- 1 :: real) ^ m) / fact m) = 103 / 280"
    by (simp add: eval_nat_numeral fact_numeral)
  have "t \<le> 1" using t by simp
  then have "exp t \<le> exp 1" by simp
  then have b: "exp t \<le> 3" using exp_le by linarith
  have p: "0 < exp t" by simp
  have f: "(fact 8 :: real) = 40320" by (simp add: eval_nat_numeral)
  have "exp (- 1 :: real) = 103 / 280 + exp t / 40320"
    using e s f by simp
  then have "103 / 280 < exp (- 1 :: real)" and "exp (- 1 :: real) \<le> 103 / 280 + 3 / 40320"
    using b p by simp_all
  then show ?thesis by (simp add: abs_less_iff)
qed

section \<open>Claims\<close>

text \<open>
  C8. For every dataset size \<open>n\<close> of at least 1 and every index \<open>i\<close> of the dataset, the
  probability that \<open>i\<close> is never drawn into one bootstrap sample of size \<open>n\<close>, taken
  uniformly with replacement from the \<open>n\<close> items, is \<open>(1 - 1/n)\<^sup>n\<close>. As \<open>n\<close> grows
  this probability tends to \<open>1 / e\<close>, which is 36.8 percent to within a tenth of a
  percentage point.
\<close>

theorem out_of_bag_probability:
  assumes "1 \<le> n" and "i < n"
  shows "oob_probability n n i = (1 - 1 / real n) ^ n
         \<and> (\<lambda>m. oob_probability m m 0) \<longlonglongrightarrow> exp (- 1)
         \<and> \<bar>exp (- 1 :: real) - 368 / 1000\<bar> < 1 / 1000"
proof (intro conjI)
  show "oob_probability n n i = (1 - 1 / real n) ^ n"
    using assms by (rule oob_probability_eq)
  show "(\<lambda>m. oob_probability m m 0) \<longlonglongrightarrow> exp (- 1)"
    by (rule oob_probability_limit)
  show "\<bar>exp (- 1 :: real) - 368 / 1000\<bar> < 1 / 1000"
    by (rule exp_minus_one_approx)
qed

theorem out_of_bag_probability_witness:
  "length (bootstrap_outcomes 3 3) = 27
   \<and> length (filter (out_of_bag 1) (bootstrap_outcomes 3 3)) = 8
   \<and> oob_probability 3 3 1 = 8 / 27"
proof -
  have n: "(1::nat) \<le> 3" and i: "(1::nat) < 3" by simp_all
  have "oob_probability 3 3 1 = (1 - 1 / real 3) ^ 3"
    using out_of_bag_probability [OF n i] by blast
  then have "oob_probability 3 3 1 = 8 / 27"
    by (simp add: power3_eq_cube)
  moreover have "length (bootstrap_outcomes 3 3) = 27"
    by code_simp
  moreover have "length (filter (out_of_bag 1) (bootstrap_outcomes 3 3)) = 8"
    by code_simp
  ultimately show ?thesis by blast
qed

text \<open>
  C10. In the coin-toss simulation every entry of \<open>cumulative_heads_ratio\<close> lies in the
  closed interval from 0 to 1. For an input array of the shape the cell asks for, 10000 rows
  of 10 columns, \<open>cumulative_heads_ratio\<close> has the same shape, and
  the entry in row \<open>t\<close> and column \<open>c\<close> of \<open>cumulative_heads\<close> is the number
  of heads among the first \<open>t + 1\<close> tosses of that column, which is at most \<open>t + 1\<close>
  (and so at most 10000, far inside the range of a 32-bit integer); the entry of
  \<open>cumulative_heads_ratio\<close> is that count divided by \<open>t + 1\<close> and rounded, and it is
  between 0 and 1. The rounding \<open>fl\<close> of the division is any monotone function that
  leaves 0 and 1 unchanged, as rounding to the nearest double does.
\<close>

theorem cumulative_heads_ratio_in_unit_interval:
  assumes "has_shape rnd 10000 10"
    and "mono fl" and "fl 0 = 0" and "fl 1 = 1"
    and "t < 10000" and "c < 10"
  shows "length (cumulative_heads_ratio fl rnd) = 10000
         \<and> length (cumulative_heads_ratio fl rnd ! t) = 10
         \<and> cumulative_heads rnd ! t ! c = int (heads_among rnd t c)
         \<and> heads_among rnd t c \<le> t + 1
         \<and> cumulative_heads rnd ! t ! c < 2 ^ 31
         \<and> cumulative_heads_ratio fl rnd ! t ! c
             = fl (of_nat (heads_among rnd t c) / of_nat (t + 1))
         \<and> 0 \<le> cumulative_heads_ratio fl rnd ! t ! c
         \<and> cumulative_heads_ratio fl rnd ! t ! c \<le> 1"
proof -
  let ?h = "heads_among rnd t c"
  let ?q = "(of_nat ?h / of_nat (Suc t)) :: rat"
  from assms(1) have rows: "list_all (\<lambda>row. length row = 10) rnd" and len: "length rnd = 10000"
    by (simp_all add: has_shape_def)
  have entry: "cumulative_heads rnd ! t ! c = int ?h"
    using rows assms(5,6) len by (intro cumulative_heads_nth [where m = 10]) simp_all
  have rows_out: "length (cumulative_heads_ratio fl rnd) = 10000"
    using len by (rule length_cumulative_heads_ratio)
  have "length (cumulative_heads rnd ! t) = 10"
    using rows assms(5) len by (intro cumulative_heads_row_length) simp_all
  then have cols_out: "length (cumulative_heads_ratio fl rnd ! t) = 10"
    by (simp add: cumulative_heads_ratio_row [OF len assms(5)])
  have le: "?h \<le> Suc t" by (rule heads_among_le)
  have small: "cumulative_heads rnd ! t ! c < 2 ^ 31"
    using entry le assms(5) by simp
  have ratio: "cumulative_heads_ratio fl rnd ! t ! c = fl ?q"
    using assms(1,5,6) by (rule cumulative_heads_ratio_nth)
  have "0 \<le> ?q" by simp
  then have "fl 0 \<le> fl ?q" by (rule monoD [OF assms(2)])
  then have lower: "0 \<le> fl ?q" using assms(3) by simp
  have "?q \<le> 1" using le by (simp add: divide_le_eq_1 del: of_nat_Suc)
  then have "fl ?q \<le> fl 1" by (rule monoD [OF assms(2)])
  then have upper: "fl ?q \<le> 1" using assms(4) by simp
  show ?thesis using rows_out cols_out entry le small ratio lower upper by simp
qed

theorem cumulative_heads_ratio_in_unit_interval_witness:
  "cumulative_heads (replicate 10000 (replicate 10 (1 / 2))) ! 9999 ! 9
     = int (heads_among (replicate 10000 (replicate 10 (1 / 2))) 9999 9)
   \<and> heads_among (replicate 10000 (replicate 10 (1 / 2))) 9999 9 \<le> 10000
   \<and> 0 \<le> cumulative_heads_ratio (\<lambda>x. x) (replicate 10000 (replicate 10 (1 / 2))) ! 9999 ! 9
   \<and> cumulative_heads_ratio (\<lambda>x. x) (replicate 10000 (replicate 10 (1 / 2))) ! 9999 ! 9 \<le> 1"
proof -
  have shape: "has_shape (replicate 10000 (replicate 10 (1 / 2 :: rat))) 10000 10"
    by (simp add: has_shape_def list_all_iff)
  have m: "mono (\<lambda>x::rat. x)" by (rule monoI)
  have t: "(9999::nat) < 10000" and c: "(9::nat) < 10" by simp_all
  show ?thesis
    using cumulative_heads_ratio_in_unit_interval [OF shape m refl refl t c] by simp
qed

end
